theory Spec2Isabelle
  imports Main "HOL-Library.Sublist"
begin

section \<open>Python strings and values\<close>

text \<open>
  A Python \<open>str\<close> is a sequence of Unicode code points and \<open>len\<close> counts code points, so
  a string is a list of code points. \<open>str\<close> turns an ASCII literal into such a list;
  the non-ASCII letters of the program's literals are written by code point, exactly as
  the two files hold them. In \<open>preprocess_citations.py\<close> every accented letter of a
  literal stands as two code points (the capital A with diaeresis of the character
  classes as U+0413 U+201E, the e with acute accent of the month names as U+0413
  U+00A9, and so on); in \<open>analyze_unparseable.py\<close> it is one code point.
\<close>

type_synonym ustring = "nat list"

definition str :: "string \<Rightarrow> ustring" where
  "str s = map of_char s"

text \<open>
  The values a citation can be when it comes out of a parsed JSON document (a number
  is an integer here). Every function below treats all values that are not strings
  alike.
\<close>

datatype pyval =
    PyNone
  | PyBool bool
  | PyInt int
  | PyStr ustring
  | PyList "pyval list"
  | PyDict "(ustring \<times> pyval) list"

datatype error = AttributeError

fun truthy :: "pyval \<Rightarrow> bool" where
  "truthy PyNone = False"
| "truthy (PyBool b) = b"
| "truthy (PyInt i) = (i \<noteq> 0)"
| "truthy (PyStr s) = (s \<noteq> [])"
| "truthy (PyList xs) = (xs \<noteq> [])"
| "truthy (PyDict kvs) = (kvs \<noteq> [])"

fun isinstance_str :: "pyval \<Rightarrow> bool" where
  "isinstance_str (PyStr s) = True"
| "isinstance_str v = False"

text \<open>
  The interpreter's Unicode tables are not part of the program. They are a parameter of
  every function that consults them: \<open>py_lower\<close> is \<open>str.lower\<close> (a function of the whole
  string, since lower-casing depends on context and can change the length),
  \<open>py_isspace\<close> decides \<open>\s\<close> and \<open>str.strip\<close>, \<open>py_isdecimal\<close> decides \<open>\d\<close>,
  \<open>py_isdigit\<close> decides \<open>str.isdigit\<close>, and \<open>py_isalnum\<close> (with the underscore)
  decides \<open>\w\<close> and so \<open>\b\<close>.
\<close>

record unicode =
  py_lower :: "ustring \<Rightarrow> ustring"
  py_isspace :: "nat \<Rightarrow> bool"
  py_isdecimal :: "nat \<Rightarrow> bool"
  py_isdigit :: "nat \<Rightarrow> bool"
  py_isalnum :: "nat \<Rightarrow> bool"

text \<open>
  The tables of CPython on the code points below U+0100, used to run the functions on
  concrete text. Code points from U+0100 on are taken as caseless symbols there.
\<close>

definition in_range :: "nat \<Rightarrow> nat \<Rightarrow> nat \<Rightarrow> bool" where
  "in_range lo hi c = (lo \<le> c \<and> c \<le> hi)"

definition latin1_lower_char :: "nat \<Rightarrow> nat" where
  "latin1_lower_char c =
     (if in_range 0x41 0x5A c \<or> in_range 0xC0 0xD6 c \<or> in_range 0xD8 0xDE c
      then c + 0x20 else c)"

definition latin1 :: unicode where
  "latin1 = \<lparr>
     py_lower = map latin1_lower_char,
     py_isspace = (\<lambda>c. in_range 0x09 0x0D c \<or> in_range 0x1C 0x20 c \<or> c = 0x85 \<or> c = 0xA0),
     py_isdecimal = in_range 0x30 0x39,
     py_isdigit = (\<lambda>c. in_range 0x30 0x39 c \<or> c = 0xB2 \<or> c = 0xB3 \<or> c = 0xB9),
     py_isalnum = (\<lambda>c. in_range 0x30 0x39 c \<or> in_range 0x41 0x5A c \<or> in_range 0x61 0x7A c
                      \<or> c = 0xAA \<or> c = 0xB2 \<or> c = 0xB3 \<or> c = 0xB5 \<or> c = 0xB9 \<or> c = 0xBA
                      \<or> in_range 0xBC 0xBE c \<or> in_range 0xC0 0xD6 c
                      \<or> in_range 0xD8 0xF6 c \<or> in_range 0xF8 0xFF c) \<rparr>"

subsection \<open>String methods\<close>

fun contains :: "ustring \<Rightarrow> ustring \<Rightarrow> bool" where
  "contains sub [] = (sub = [])"
| "contains sub (x # xs) = (prefix sub (x # xs) \<or> contains sub xs)"

definition startswith :: "ustring \<Rightarrow> ustring \<Rightarrow> bool" where
  "startswith s p = prefix p s"

definition endswith :: "ustring \<Rightarrow> ustring \<Rightarrow> bool" where
  "endswith s e = suffix e s"

definition strip :: "unicode \<Rightarrow> ustring \<Rightarrow> ustring" where
  "strip U s = rev (dropWhile (py_isspace U) (rev (dropWhile (py_isspace U) s)))"

definition replace_char :: "nat \<Rightarrow> ustring \<Rightarrow> ustring" where
  "replace_char c s = filter (\<lambda>x. x \<noteq> c) s"

definition isdigit :: "unicode \<Rightarrow> ustring \<Rightarrow> bool" where
  "isdigit U s = (s \<noteq> [] \<and> list_all (py_isdigit U) s)"

definition ascii_upper :: "ustring \<Rightarrow> ustring" where
  "ascii_upper s = map (\<lambda>c. if in_range 0x61 0x7A c then c - 0x20 else c) s"

section \<open>Regular expressions\<close>

text \<open>
  The patterns of the program, as backtracking matchers. A matcher takes the code point
  before the current position (if any), the text from the current position on and the
  groups captured so far, and returns every way it can match there, in the order in
  which the backtracking engine of \<open>re\<close> tries them. A search takes the first.
\<close>

type_synonym groups = "(nat \<times> ustring) list"
type_synonym mstate = "nat option \<times> ustring \<times> groups"
type_synonym matcher = "mstate \<Rightarrow> mstate list"

fun cls :: "(nat \<Rightarrow> bool) \<Rightarrow> matcher" where
  "cls P (p, [], g) = []"
| "cls P (p, x # xs, g) = (if P x then [(Some x, xs, g)] else [])"

definition chr :: "nat \<Rightarrow> matcher" where
  "chr c = cls (\<lambda>x. x = c)"

definition eps :: matcher where
  "eps st = [st]"

definition seq :: "matcher \<Rightarrow> matcher \<Rightarrow> matcher" where
  "seq m1 m2 st = concat (map m2 (m1 st))"

definition alt :: "matcher \<Rightarrow> matcher \<Rightarrow> matcher" where
  "alt m1 m2 st = m1 st @ m2 st"

primrec lit :: "ustring \<Rightarrow> matcher" where
  "lit [] = eps"
| "lit (c # cs) = seq (chr c) (lit cs)"

definition opt :: "matcher \<Rightarrow> matcher" where
  "opt m = alt m eps"

text \<open>Greedy repetition: one more round first, stopping here last.\<close>

function star :: "matcher \<Rightarrow> matcher" where
  "star m (p, r, g) =
     concat (map (\<lambda>(p', r', g'). if length r' < length r then star m (p', r', g') else [])
                 (m (p, r, g)))
     @ [(p, r, g)]"
  by pat_completeness auto
termination
  by (relation "measure (\<lambda>(m, p, r, g). length r)") auto

definition rep1 :: "matcher \<Rightarrow> matcher" where
  "rep1 m = seq m (star m)"

text \<open>A capturing group records the text its body consumed.\<close>

fun grp :: "nat \<Rightarrow> matcher \<Rightarrow> matcher" where
  "grp n m (p, r, g) =
     map (\<lambda>(p', r', g'). (p', r', (n, take (length r - length r') r) # g')) (m (p, r, g))"

definition is_word :: "unicode \<Rightarrow> nat \<Rightarrow> bool" where
  "is_word U c = (py_isalnum U c \<or> c = 0x5F)"

fun bnd :: "unicode \<Rightarrow> matcher" where
  "bnd U (p, r, g) =
     (let word_before = (case p of None \<Rightarrow> False | Some c \<Rightarrow> is_word U c);
          word_after = (case r of [] \<Rightarrow> False | c # _ \<Rightarrow> is_word U c)
      in if word_before \<noteq> word_after then [(p, r, g)] else [])"

fun bol :: matcher where
  "bol (p, r, g) = (if p = None then [(p, r, g)] else [])"

fun eol :: matcher where
  "eol (p, r, g) = (if r = [] \<or> r = [0x0A] then [(p, r, g)] else [])"

definition group_text :: "groups \<Rightarrow> nat \<Rightarrow> ustring" where
  "group_text g n = (case map_of g n of None \<Rightarrow> [] | Some t \<Rightarrow> t)"

text \<open>
  \<open>re_scan\<close> looks for the leftmost position at which the pattern matches and returns
  the text skipped before it with the first match there.
\<close>

fun re_scan :: "matcher \<Rightarrow> nat option \<Rightarrow> ustring \<Rightarrow> (ustring \<times> mstate) option" where
  "re_scan m p [] = (case m (p, [], []) of [] \<Rightarrow> None | st # _ \<Rightarrow> Some ([], st))"
| "re_scan m p (x # xs) =
     (case m (p, x # xs, []) of
        st # _ \<Rightarrow> Some ([], st)
      | [] \<Rightarrow> map_option (\<lambda>(pre, st). (x # pre, st)) (re_scan m (Some x) xs))"

definition re_search :: "matcher \<Rightarrow> ustring \<Rightarrow> groups option" where
  "re_search m s = map_option (\<lambda>(pre, p, r, g). g) (re_scan m None s)"

definition re_match :: "matcher \<Rightarrow> ustring \<Rightarrow> groups option" where
  "re_match m s = (case m (None, s, []) of [] \<Rightarrow> None | (p, r, g) # _ \<Rightarrow> Some g)"

text \<open>
  \<open>re.sub\<close>: every match, left to right and without overlap, is replaced by the
  template filled from its groups. After an empty match the next code point is copied.
\<close>

function re_sub_from :: "matcher \<Rightarrow> (groups \<Rightarrow> ustring) \<Rightarrow> nat option \<Rightarrow> ustring \<Rightarrow> ustring" where
  "re_sub_from m repl p r =
     (case re_scan m p r of
        None \<Rightarrow> r
      | Some (pre, p', r', g) \<Rightarrow>
          if length pre + length r' < length r then pre @ repl g @ re_sub_from m repl p' r'
          else pre @ repl g @
               (case r' of [] \<Rightarrow> []
                | x # xs \<Rightarrow> if length xs < length r then x # re_sub_from m repl (Some x) xs
                            else x # xs))"
  by pat_completeness auto
termination
  by (relation "measure (\<lambda>(m, repl, p, r). length r)") auto

definition re_sub :: "matcher \<Rightarrow> (groups \<Rightarrow> ustring) \<Rightarrow> ustring \<Rightarrow> ustring" where
  "re_sub m repl s = re_sub_from m repl None s"

section \<open>preprocess\_citations.py\<close>

subsection \<open>normalize\_citation\<close>

text \<open>
  The character classes of the four patterns, code point by code point as the file has
  them: \<open>upper_start\<close> is the class that opens an abbreviation, \<open>abbrev_tail\<close> and
  \<open>abbrev_tail3\<close> are the classes of its further letters in patterns 1, 2 and in
  pattern 3, \<open>lower_tail\<close> is the class of small letters of the mixed-case test, and
  \<open>footnote_letter\<close> is the class before a trailing footnote number.
\<close>

definition upper_start :: "nat \<Rightarrow> bool" where
  "upper_start c = (in_range 0x41 0x5A c \<or> c \<in> set [0x413, 0x201E, 0x2013, 0x4A3])"

definition abbrev_tail :: "nat \<Rightarrow> bool" where
  "abbrev_tail c = (upper_start c \<or> in_range 0x61 0x7A c
                    \<or> c \<in> set [0x413, 0x4E8, 0xB6, 0x458, 0x4B9])"

definition abbrev_tail3 :: "nat \<Rightarrow> bool" where
  "abbrev_tail3 c = (upper_start c \<or> in_range 0x61 0x7A c \<or> c \<in> set [0x413, 0x4E8, 0xB6, 0x458])"

definition lower_tail :: "nat \<Rightarrow> bool" where
  "lower_tail c = (in_range 0x61 0x7A c \<or> c \<in> set [0x413, 0x4E8, 0xB6, 0x458])"

definition footnote_letter :: "nat \<Rightarrow> bool" where
  "footnote_letter c = (in_range 0x61 0x7A c
     \<or> c \<in> set [0x413, 0xA0, 0x45E, 0x4E8, 0xA9, 0x401, 0x4D8, 0xAB, 0x49C, 0xAE, 0x499,
                 0x2116, 0xBB, 0x458, 0x49D, 0x415, 0x201C, 0x4B0, 0xA7])"

definition digit :: "unicode \<Rightarrow> matcher" where
  "digit U = cls (py_isdecimal U)"

definition space :: "unicode \<Rightarrow> matcher" where
  "space U = cls (py_isspace U)"

definition seqs :: "matcher list \<Rightarrow> matcher" where
  "seqs ms = foldr seq ms eps"

text \<open>\<^verbatim>\<open>(\d+)\s+a([A-Z..][A-Z..a-z..]{1,})\b\<close> and its template \<^verbatim>\<open>\1 a \2\<close>\<close>

definition pattern1 :: "unicode \<Rightarrow> matcher" where
  "pattern1 U = seqs [grp 1 (rep1 (digit U)), rep1 (space U), chr 0x61,
                      grp 2 (seq (cls upper_start) (rep1 (cls abbrev_tail))), bnd U]"

definition template1 :: "groups \<Rightarrow> ustring" where
  "template1 g = group_text g 1 @ str '' a '' @ group_text g 2"

text \<open>\<^verbatim>\<open>(\s)a([A-Z..][A-Z..a-z..]{1,})\b\<close> and its template \<^verbatim>\<open>\1a \2\<close>\<close>

definition pattern2 :: "unicode \<Rightarrow> matcher" where
  "pattern2 U = seqs [grp 1 (space U), chr 0x61,
                      grp 2 (seq (cls upper_start) (rep1 (cls abbrev_tail))), bnd U]"

definition template2 :: "groups \<Rightarrow> ustring" where
  "template2 g = group_text g 1 @ str ''a '' @ group_text g 2"

text \<open>\<^verbatim>\<open>\b([Aa]rt)\.?(\d+)([A-Z..][A-Z..a-z..]{1,})\b\<close> and its template \<^verbatim>\<open>\1. \2 \3\<close>\<close>

definition pattern3 :: "unicode \<Rightarrow> matcher" where
  "pattern3 U = seqs [bnd U, grp 1 (seq (alt (chr 0x41) (chr 0x61)) (lit (str ''rt''))),
                      opt (chr 0x2E), grp 2 (rep1 (digit U)),
                      grp 3 (seq (cls upper_start) (rep1 (cls abbrev_tail3))), bnd U]"

definition template3 :: "groups \<Rightarrow> ustring" where
  "template3 g = group_text g 1 @ str ''. '' @ group_text g 2 @ str '' '' @ group_text g 3"

text \<open>\<^verbatim>\<open>([a-z..])\d+$\<close> and its template \<^verbatim>\<open>\1\<close>\<close>

definition pattern4 :: "unicode \<Rightarrow> matcher" where
  "pattern4 U = seqs [grp 1 (cls footnote_letter), rep1 (digit U), eol]"

definition template4 :: "groups \<Rightarrow> ustring" where
  "template4 g = group_text g 1"

definition the_str :: "pyval \<Rightarrow> ustring" where
  "the_str v = (case v of PyStr s \<Rightarrow> s | _ \<Rightarrow> [])"

definition normalize_text :: "unicode \<Rightarrow> ustring \<Rightarrow> ustring" where
  "normalize_text U original =
     (let citation = re_sub (pattern1 U) template1 original;
          citation = re_sub (pattern2 U) template2 citation;
          citation = re_sub (pattern3 U) template3 citation;
          citation = re_sub (pattern4 U) template4 citation
      in citation)"

definition normalize_citation :: "unicode \<Rightarrow> pyval \<Rightarrow> error + (pyval \<times> bool \<times> bool)" where
  "normalize_citation U citation =
     (if \<not> truthy citation \<or> \<not> isinstance_str citation then Inr (citation, False, False)
      else
        let original = the_str citation;
            citation = normalize_text U original;
            is_digit_only = isdigit U (replace_char 0x2E (replace_char 0x20 (strip U citation)));
            changed = (citation \<noteq> original)
        in Inr (PyStr citation, changed, is_digit_only))"

subsection \<open>is\_garbage\_citation\<close>

text \<open>\<^verbatim>\<open>^(Abs\.|Al\.|al\.|lit\.|let\.|Lit\.|Let\.)\s\<close>\<close>

definition fragment_markers :: "ustring list" where
  "fragment_markers = map str [''Abs.'', ''Al.'', ''al.'', ''lit.'', ''let.'', ''Lit.'', ''Let.'']"

definition alts :: "matcher list \<Rightarrow> matcher" where
  "alts ms = foldr alt ms (\<lambda>st. [])"

definition fragment_pattern :: "unicode \<Rightarrow> matcher" where
  "fragment_pattern U = seqs [bol, grp 1 (alts (map lit fragment_markers)), space U]"

definition month_patterns :: "ustring list" where
  "month_patterns =
     [str ''januar'', str ''februar'', str ''m'' @ [0x413, 0x4E8] @ str ''rz'', str ''april'',
      str ''mai'', str ''juni'', str ''juli'', str ''august'', str ''september'',
      str ''oktober'', str ''november'', str ''dezember'', str ''janvier'',
      str ''f'' @ [0x413, 0xA9] @ str ''vrier'', str ''mars'', str ''avril'', str ''mai'',
      str ''juin'', str ''juillet'', str ''ao'' @ [0x413, 0xBB] @ str ''t'', str ''septembre'',
      str ''octobre'', str ''novembre'', str ''d'' @ [0x413, 0xA9] @ str ''cembre'',
      str ''gennaio'', str ''febbraio'', str ''marzo'', str ''aprile'', str ''maggio'',
      str ''giugno'', str ''luglio'', str ''agosto'', str ''settembre'', str ''ottobre'',
      str ''novembre'', str ''dicembre'']"

text \<open>\<^verbatim>\<open>\b[Aa]rt\.?\s*\d\<close>\<close>

definition article_pattern :: "unicode \<Rightarrow> matcher" where
  "article_pattern U = seqs [bnd U, alt (chr 0x41) (chr 0x61), lit (str ''rt''), opt (chr 0x2E),
                             star (space U), digit U]"

text \<open>\<^verbatim>\<open>^\d+\s*(ff?\.?)$\<close>\<close>

definition page_pattern :: "unicode \<Rightarrow> matcher" where
  "page_pattern U = seqs [bol, rep1 (digit U), star (space U),
                          grp 1 (seqs [chr 0x66, opt (chr 0x66), opt (chr 0x2E)]), eol]"

definition incomplete_endings :: "ustring list" where
  "incomplete_endings =
     [str ''de la'', str ''du'', str ''des'', str ''de l'' @ [0x27], str ''della'', str ''del'',
      str ''ist ('', str ''sind ('', str ''sowie '', str ''et art'', str ''e art'']"

definition proposal_words :: "ustring list" where
  "proposal_words = map str [''proposition'', ''motion'', ''postulat'', ''initiative'', ''anfrage'']"

text \<open>\<^verbatim>\<open>(Abs|abs|Art|art)\s*$\<close>\<close>

definition dangling_pattern :: "unicode \<Rightarrow> matcher" where
  "dangling_pattern U =
     seqs [grp 1 (alts (map (lit \<circ> str) [''Abs'', ''abs'', ''Art'', ''art''])), star (space U), eol]"

definition is_garbage_text :: "unicode \<Rightarrow> ustring \<Rightarrow> bool \<times> ustring option" where
  "is_garbage_text U citation =
     (let citation_lower = py_lower U citation in
      if re_match (fragment_pattern U) citation \<noteq> None then (True, Some (str ''fragment_marker''))
      else
        let has_month = list_ex (\<lambda>month. contains month citation_lower) month_patterns;
            has_article = (re_search (article_pattern U) citation \<noteq> None)
        in
        if has_month \<and> \<not> has_article then (True, Some (str ''date_reference''))
        else if re_match (page_pattern U) citation \<noteq> None then (True, Some (str ''page_reference''))
        else if list_ex (\<lambda>ending. endswith citation ending) incomplete_endings
          then (True, Some (str ''incomplete_fragment''))
        else if list_ex (\<lambda>word. contains word citation_lower) proposal_words
          then (True, Some (str ''legislative_proposal''))
        else if re_search (dangling_pattern U) citation \<noteq> None
          then (True, Some (str ''incomplete_fragment''))
        else if length citation > 50 \<and> re_search (article_pattern U) citation = None
          then (True, Some (str ''non_citation_text''))
        else (False, None))"

definition is_garbage_citation :: "unicode \<Rightarrow> pyval \<Rightarrow> error + (bool \<times> ustring option)" where
  "is_garbage_citation U citation =
     (if \<not> truthy citation \<or> \<not> isinstance_str citation then Inr (False, None)
      else Inr (is_garbage_text U (the_str citation)))"

subsection \<open>extract\_law\_from\_citations\<close>

definition swiss_law_abbrevs :: "ustring list" where
  "swiss_law_abbrevs = map str
     [''stgb'', ''zgb'', ''or'', ''bv'', ''schkg'', ''zpo'', ''stpo'',
      ''uvg'', ''ahvg'', ''kvg'', ''bvg'', ''avig'', ''urg'', ''dsg'',
      ''usg'', ''mwstg'', ''dbg'', ''vwvg'', ''pa'', ''cp'', ''cc'',
      ''cst'', ''cste'', ''but'', ''cost'']"

text \<open>\<^verbatim>\<open>\b(?:rs|sr)\s*(\d+(?:\.\d+)*)\b\<close>\<close>

definition rs_pattern :: "unicode \<Rightarrow> matcher" where
  "rs_pattern U = seqs [bnd U, alt (lit (str ''rs'')) (lit (str ''sr'')), star (space U),
                        grp 1 (seq (rep1 (digit U)) (star (seq (chr 0x2E) (rep1 (digit U))))),
                        bnd U]"

text \<open>\<^verbatim>\<open>r'\b' + re.escape(abbrev) + r'\b'\<close>, for an abbreviation made of ASCII letters\<close>

definition word_pattern :: "unicode \<Rightarrow> ustring \<Rightarrow> matcher" where
  "word_pattern U abbrev = seqs [bnd U, lit abbrev, bnd U]"

text \<open>
  The two steps that the loop of \<open>extract_law_from_citations\<close> and the first loop of
  \<open>enrich_article_only_citations\<close> both take on one lower-cased citation: the RS/SR
  number, and the first abbreviation of a list that occurs as a word.
\<close>

definition rs_number :: "unicode \<Rightarrow> ustring \<Rightarrow> ustring option" where
  "rs_number U citation_lower =
     (if contains (str ''rs '') citation_lower \<or> contains (str ''sr '') citation_lower
      then map_option (\<lambda>g. str ''RS '' @ group_text g 1) (re_search (rs_pattern U) citation_lower)
      else None)"

definition known_abbrev :: "unicode \<Rightarrow> ustring list \<Rightarrow> ustring \<Rightarrow> ustring option" where
  "known_abbrev U abbrevs citation_lower =
     map_option ascii_upper
       (find (\<lambda>abbrev. re_search (word_pattern U abbrev) citation_lower \<noteq> None) abbrevs)"

definition law_of :: "unicode \<Rightarrow> ustring list \<Rightarrow> ustring \<Rightarrow> ustring option" where
  "law_of U abbrevs citation =
     (let citation_lower = py_lower U citation in
      case rs_number U citation_lower of
        Some law \<Rightarrow> Some law
      | None \<Rightarrow> known_abbrev U abbrevs citation_lower)"

fun extract_law_from_citations :: "unicode \<Rightarrow> pyval list \<Rightarrow> error + ustring option" where
  "extract_law_from_citations U [] = Inr None"
| "extract_law_from_citations U (citation # citations) =
     (case citation of
        PyStr s \<Rightarrow>
          (case law_of U swiss_law_abbrevs s of
             Some law \<Rightarrow> Inr (Some law)
           | None \<Rightarrow> extract_law_from_citations U citations)
      | _ \<Rightarrow> Inl AttributeError)"

subsection \<open>enrich\_article\_only\_citations\<close>

definition enrich_law_abbrevs :: "ustring list" where
  "enrich_law_abbrevs = map str
     [''stgb'', ''zgb'', ''or'', ''bv'', ''schkg'', ''zpo'', ''stpo'',
      ''uvg'', ''ahvg'', ''kvg'', ''bvg'', ''avig'', ''urg'', ''dsg'',
      ''usg'', ''mwstg'', ''dbg'', ''vwvg'', ''pa'', ''cp'', ''cc'',
      ''cst'', ''cste'', ''but'', ''cost'', ''bgg'', ''svg'', ''emrk'', ''cedh'']"

definition swiss_law_indicators :: "ustring list" where
  "swiss_law_indicators = map str
     [''stgb'', ''zgb'', ''or'', ''bv'', ''schkg'', ''zpo'', ''stpo'',
      ''uvg'', ''ahvg'', ''kvg'', ''bvg'', ''avig'', ''urg'', ''dsg'',
      ''usg'', ''mwstg'', ''dbg'', ''vwvg'', ''pa'', ''cp'', ''cc'',
      ''bgg'', ''svg'', ''emrk'', ''cedh'', ''cost'', ''cst'', ''cste'', ''but'']"

text \<open>The first loop: the law references of all the citations, in order.\<close>

fun all_laws :: "unicode \<Rightarrow> pyval list \<Rightarrow> error + ustring list" where
  "all_laws U [] = Inr []"
| "all_laws U (citation # citations) =
     (case citation of
        PyStr s \<Rightarrow>
          (case all_laws U citations of
             Inl e \<Rightarrow> Inl e
           | Inr laws \<Rightarrow>
               (case law_of U enrich_law_abbrevs s of
                  Some law \<Rightarrow> Inr (law # laws)
                | None \<Rightarrow> Inr laws))
      | _ \<Rightarrow> Inl AttributeError)"

text \<open>\<^verbatim>\<open>\b[A-Z..]{2,}\b\<close> and \<^verbatim>\<open>\b[A-Z..][a-z..]*[A-Z..]\<close>\<close>

definition uppercase_abbrev_pattern :: "unicode \<Rightarrow> matcher" where
  "uppercase_abbrev_pattern U = seqs [bnd U, cls upper_start, rep1 (cls upper_start), bnd U]"

definition mixed_case_abbrev_pattern :: "unicode \<Rightarrow> matcher" where
  "mixed_case_abbrev_pattern U = seqs [bnd U, cls upper_start, star (cls lower_tail), cls upper_start]"

definition is_article_only :: "unicode \<Rightarrow> ustring \<Rightarrow> bool" where
  "is_article_only U citation =
     (let citation_lower = strip U (py_lower U citation);
          has_law_abbrev = list_ex (\<lambda>abbrev. contains abbrev citation_lower) swiss_law_indicators;
          has_rs_sr = (contains (str ''rs '') citation_lower \<or> contains (str ''sr '') citation_lower
                       \<or> contains (str ''rs.'') citation_lower \<or> contains (str ''sr.'') citation_lower);
          has_uppercase_abbrev = (re_search (uppercase_abbrev_pattern U) citation \<noteq> None);
          has_mixed_case_abbrev = (re_search (mixed_case_abbrev_pattern U) citation \<noteq> None)
      in startswith citation_lower (str ''art'') \<and> length citation < 25 \<and> \<not> has_law_abbrev
         \<and> \<not> has_rs_sr \<and> \<not> has_uppercase_abbrev \<and> \<not> has_mixed_case_abbrev)"

text \<open>The second loop, with the enriched list and the count as its state.\<close>

fun enrich_loop :: "unicode \<Rightarrow> ustring \<Rightarrow> pyval list \<Rightarrow> error + (pyval list \<times> nat)" where
  "enrich_loop U law_ref [] = Inr ([], 0)"
| "enrich_loop U law_ref (citation # citations) =
     (case citation of
        PyStr s \<Rightarrow>
          (case enrich_loop U law_ref citations of
             Inl e \<Rightarrow> Inl e
           | Inr (enriched, enrichment_count) \<Rightarrow>
               if is_article_only U s
               then Inr (PyStr (s @ str '' '' @ law_ref) # enriched, enrichment_count + 1)
               else Inr (citation # enriched, enrichment_count))
      | _ \<Rightarrow> Inl AttributeError)"

definition enrich_article_only_citations :: "unicode \<Rightarrow> pyval list \<Rightarrow> error + (pyval list \<times> nat)" where
  "enrich_article_only_citations U citations =
     (case all_laws U citations of
        Inl e \<Rightarrow> Inl e
      | Inr laws \<Rightarrow>
          (case remdups laws of
             [law_ref] \<Rightarrow> enrich_loop U law_ref citations
           | unique_laws \<Rightarrow> Inr (citations, 0)))"

subsection \<open>The citation loop of process\_csv\<close>

text \<open>
  The counters of \<open>stats\<close> that the citations of a row change, and the log of short
  fragments (the original and the normalized citation of each entry; its row identifier
  and its constant reason are left out). The lists of examples kept for display and the
  file of transformations are not modelled.
\<close>

record stats =
  citations_processed :: nat
  citations_changed :: nat
  citations_removed_digit_only :: nat
  citations_removed_garbage :: nat
  citations_enriched :: nat
  citations_kept :: nat
  failures :: "(pyval \<times> pyval) list"

definition known_abbrevs :: "ustring list" where
  "known_abbrevs = map str
     [''rs '', ''sr '', ''constitution'', ''verfassung'', ''costituzione'',
      ''cst.'', ''cste.'', ''cst'', ''cste'', ''but'', ''bv'', ''cost.'', ''cost'',
      ''stgb'', ''zgb'', ''or'', ''svg'', ''schkg'', ''zpo'', ''stpo'',
      ''uvg'', ''ahvg'', ''kvg'', ''bvg'', ''avig'', ''urg'', ''dsg'',
      ''usg'', ''mwstg'', ''dbg'', ''vesr'', ''fiskalg'']"

definition is_short_fragment :: "unicode \<Rightarrow> ustring \<Rightarrow> bool" where
  "is_short_fragment U normalized =
     (length (strip U normalized) < 15 \<and>
      (let has_known_abbrev = list_ex (\<lambda>abbrev. contains abbrev (py_lower U normalized)) known_abbrevs;
           has_uppercase_abbrev = (re_search (uppercase_abbrev_pattern U) normalized \<noteq> None);
           has_mixed_case_abbrev = (re_search (mixed_case_abbrev_pattern U) normalized \<noteq> None)
       in \<not> has_known_abbrev \<and> \<not> has_uppercase_abbrev \<and> \<not> has_mixed_case_abbrev))"

text \<open>
  One round of the loop over \<open>articles\<close> (lines 288 to 345). \<open>normalized.strip()\<close>
  raises on a value that is not a string.
\<close>

definition process_citation ::
  "unicode \<Rightarrow> stats \<times> pyval list \<Rightarrow> pyval \<Rightarrow> error + (stats \<times> pyval list)" where
  "process_citation U state citation =
     (let (st, normalized_articles) = state;
          st = st\<lparr>citations_processed := citations_processed st + 1\<rparr>
      in case normalize_citation U citation of
           Inl e \<Rightarrow> Inl e
         | Inr (normalized, changed, is_digit_only) \<Rightarrow>
             if is_digit_only
             then Inr (st\<lparr>citations_removed_digit_only := citations_removed_digit_only st + 1\<rparr>,
                       normalized_articles)
             else
               (case is_garbage_citation U normalized of
                  Inl e \<Rightarrow> Inl e
                | Inr (is_garbage, garbage_reason) \<Rightarrow>
                    if is_garbage
                    then Inr (st\<lparr>citations_removed_garbage := citations_removed_garbage st + 1\<rparr>,
                              normalized_articles)
                    else
                      let normalized_articles = normalized_articles @ [normalized];
                          st = st\<lparr>citations_kept := citations_kept st + 1\<rparr>;
                          st = (if changed then st\<lparr>citations_changed := citations_changed st + 1\<rparr>
                                else st)
                      in (case normalized of
                            PyStr n \<Rightarrow>
                              Inr (if is_short_fragment U n
                                   then st\<lparr>failures := failures st @ [(citation, normalized)]\<rparr>
                                   else st,
                                   normalized_articles)
                          | _ \<Rightarrow> Inl AttributeError)))"

fun citations_loop ::
  "unicode \<Rightarrow> stats \<times> pyval list \<Rightarrow> pyval list \<Rightarrow> error + (stats \<times> pyval list)" where
  "citations_loop U state [] = Inr state"
| "citations_loop U state (citation # articles) =
     (case process_citation U state citation of
        Inl e \<Rightarrow> Inl e
      | Inr state' \<Rightarrow> citations_loop U state' articles)"

text \<open>
  What \<open>process_csv\<close> does with the list \<open>articles\<close> of one row (lines 287 to 364): the
  result is the list written to the output table as the row's "articles de loi". (A row
  whose list is missing or empty is written as it is and never gets here.)
\<close>

definition process_articles :: "unicode \<Rightarrow> stats \<Rightarrow> pyval list \<Rightarrow> error + (pyval list \<times> stats)" where
  "process_articles U st articles =
     (case citations_loop U (st, []) articles of
        Inl e \<Rightarrow> Inl e
      | Inr (st, normalized_articles) \<Rightarrow>
          (case enrich_article_only_citations U normalized_articles of
             Inl e \<Rightarrow> Inl e
           | Inr (enriched_articles, enriched_count) \<Rightarrow>
               Inr (enriched_articles,
                    st\<lparr>citations_enriched := citations_enriched st + enriched_count\<rparr>)))"

definition stats0 :: stats where
  "stats0 = \<lparr>citations_processed = 0, citations_changed = 0, citations_removed_digit_only = 0,
             citations_removed_garbage = 0, citations_enriched = 0, citations_kept = 0,
             failures = []\<rparr>"

section \<open>analyze\_unparseable.py\<close>

datatype label =
    GARBAGE_REPEALED
  | GARBAGE_FRAGMENT
  | GARBAGE_DATE
  | GARBAGE_PAGE_REF
  | GARBAGE_INCOMPLETE
  | GARBAGE_PROPOSAL
  | RESCUABLE_ARTICLE_ONLY
  | NON_SWISS_LAW
  | UNKNOWN

text \<open>\<open>category.startswith('GARBAGE_')\<close>\<close>

fun garbage_label :: "label \<Rightarrow> bool" where
  "garbage_label GARBAGE_REPEALED = True"
| "garbage_label GARBAGE_FRAGMENT = True"
| "garbage_label GARBAGE_DATE = True"
| "garbage_label GARBAGE_PAGE_REF = True"
| "garbage_label GARBAGE_INCOMPLETE = True"
| "garbage_label GARBAGE_PROPOSAL = True"
| "garbage_label l = False"

definition repealed_tokens :: "ustring list" where
  "repealed_tokens = [str ''abrog'' @ [0xE9], str ''aufgehoben'', str ''abrogato'']"

definition fragment_prefixes :: "ustring list" where
  "fragment_prefixes = map str [''Abs. '', ''Al. '', ''al. '', ''lit. '', ''let. '', ''Lit. '', ''Let. '']"

definition category_months :: "ustring list" where
  "category_months =
     [str ''Januar'', str ''Februar'', str ''M'' @ [0xE4] @ str ''rz'', str ''April'', str ''Mai'',
      str ''Juni'', str ''Juli'', str ''August'', str ''September'', str ''Oktober'',
      str ''November'', str ''Dezember'', str ''janvier'', str ''f'' @ [0xE9] @ str ''vrier'',
      str ''mars'', str ''avril'', str ''mai'', str ''juin'', str ''juillet'',
      str ''ao'' @ [0xFB] @ str ''t'', str ''septembre'', str ''octobre'', str ''novembre'',
      str ''d'' @ [0xE9] @ str ''cembre'']"

definition page_endings :: "ustring list" where
  "page_endings = map str [''ff.'', ''f.'', ''ff'', ''f'']"

definition category_endings :: "ustring list" where
  "category_endings =
     [str ''de la'', str ''du'', str ''des'', str ''de l'' @ [0x27], str ''della'', str ''del'',
      str ''ist ('', str ''sind ('']"

definition category_proposal_words :: "ustring list" where
  "category_proposal_words = map str [''proposition'', ''motion'', ''postulat'', ''initiative'']"

definition article_prefixes :: "ustring list" where
  "article_prefixes = map str [''Art. '', ''art. '', ''Art '', ''art '']"

definition non_swiss_words :: "ustring list" where
  "non_swiss_words =
     [str ''reglement'', str ''r'' @ [0xE8] @ str ''glement'', str ''statut'',
      str ''ordonnance communale'', str ''feuerwehrreglement'',
      [0xF6] @ str ''ffentlichkeitsgesetz'']"

definition categorize_text :: "unicode \<Rightarrow> ustring \<Rightarrow> label" where
  "categorize_text U citation =
     (let citation_lower = py_lower U citation in
      if list_ex (\<lambda>token. contains token citation_lower) repealed_tokens then GARBAGE_REPEALED
      else if list_ex (startswith citation) fragment_prefixes then GARBAGE_FRAGMENT
      else if list_ex (\<lambda>month. contains month citation) category_months then GARBAGE_DATE
      else if list_ex (endswith citation) page_endings \<and> list_ex (py_isdigit U) citation
        then GARBAGE_PAGE_REF
      else if list_ex (endswith citation) category_endings then GARBAGE_INCOMPLETE
      else if list_ex (\<lambda>word. contains word citation_lower) category_proposal_words
        then GARBAGE_PROPOSAL
      else if list_ex (startswith citation) article_prefixes \<and> length citation < 30
        then RESCUABLE_ARTICLE_ONLY
      else if list_ex (\<lambda>word. contains word citation_lower) non_swiss_words then NON_SWISS_LAW
      else UNKNOWN)"

text \<open>\<open>citation.lower()\<close> raises on a value that is not a string.\<close>

definition categorize_citation :: "unicode \<Rightarrow> pyval \<Rightarrow> error + label" where
  "categorize_citation U citation =
     (case citation of
        PyStr s \<Rightarrow> Inr (categorize_text U s)
      | _ \<Rightarrow> Inl AttributeError)"

section \<open>Evaluation on concrete text\<close>

lemmas engine_defs = seqs_def seq_def alt_def alts_def opt_def eps_def rep1_def digit_def space_def
  chr_def group_text_def in_range_def is_word_def re_search_def re_match_def re_sub_def str_def

lemmas latin1_defs = latin1_def latin1_lower_char_def

lemmas law_defs = law_of_def rs_number_def known_abbrev_def rs_pattern_def word_pattern_def
  enrich_law_abbrevs_def swiss_law_abbrevs_def ascii_upper_def

lemmas normalize_defs = normalize_citation_def normalize_text_def the_str_def
  pattern1_def pattern2_def pattern3_def pattern4_def
  template1_def template2_def template3_def template4_def
  upper_start_def abbrev_tail_def abbrev_tail3_def footnote_letter_def
  strip_def replace_char_def isdigit_def

lemmas garbage_defs = is_garbage_citation_def is_garbage_text_def the_str_def fragment_pattern_def
  fragment_markers_def month_patterns_def article_pattern_def page_pattern_def
  incomplete_endings_def proposal_words_def dangling_pattern_def endswith_def suffix_to_prefix

lemmas enrich_defs = enrich_article_only_citations_def is_article_only_def swiss_law_indicators_def
  uppercase_abbrev_pattern_def mixed_case_abbrev_pattern_def upper_start_def lower_tail_def
  strip_def startswith_def

lemmas categorize_defs = categorize_citation_def categorize_text_def repealed_tokens_def
  fragment_prefixes_def category_months_def page_endings_def category_endings_def
  category_proposal_words_def article_prefixes_def non_swiss_words_def startswith_def
  endswith_def suffix_to_prefix

section \<open>The enricher on a list of strings\<close>

lemma all_laws_strs:
  "all_laws U (map PyStr cs) = Inr (List.map_filter (law_of U enrich_law_abbrevs) cs)"
  by (induction cs) (simp_all add: map_filter_simps split: option.splits)

lemma enrich_loop_strs:
  "enrich_loop U law (map PyStr cs) =
     Inr (map (\<lambda>s. PyStr (if is_article_only U s then s @ str '' '' @ law else s)) cs,
          length (filter (is_article_only U) cs))"
  by (induction cs) simp_all

lemma enrich_strs:
  "enrich_article_only_citations U (map PyStr cs) =
     (case remdups (List.map_filter (law_of U enrich_law_abbrevs) cs) of
        [law] \<Rightarrow> Inr (map PyStr (map (\<lambda>s. if is_article_only U s then s @ str '' '' @ law else s) cs),
                     length (filter (is_article_only U) cs))
      | _ \<Rightarrow> Inr (map PyStr cs, 0))"
  by (simp add: enrich_article_only_citations_def all_laws_strs enrich_loop_strs o_def
           split: list.splits)

lemma remdups_single: "remdups xs = [x] \<Longrightarrow> set xs = {x}"
  by (metis empty_set list.simps(15) set_remdups)

text \<open>
  C1. The enricher rewrites nothing unless the law references collected over the whole
  list of citations form a set of exactly one element: when \<open>all_laws\<close> yields no
  reference, or two or more distinct ones, \<open>enrich_article_only_citations\<close> returns the
  list it was given and the count 0.
\<close>

theorem enrich_needs_exactly_one_law:
  assumes "all_laws U citations = Inr laws" and "card (set laws) \<noteq> 1"
  shows "enrich_article_only_citations U citations = Inr (citations, 0)"
proof -
  have "length (remdups laws) \<noteq> 1"
    using assms(2) by (simp add: length_remdups_card_conv)
  then show ?thesis
    using assms(1) by (auto simp: enrich_article_only_citations_def split: list.splits)
qed

theorem enrich_needs_exactly_one_law_witness:
  "all_laws latin1 (map PyStr [str ''art. 5'', str ''StGB Art. 10'', str ''ZGB Art. 2''])
     = Inr [str ''STGB'', str ''ZGB'']
   \<and> card (set [str ''STGB'', str ''ZGB'']) \<noteq> 1
   \<and> enrich_article_only_citations latin1
        (map PyStr [str ''art. 5'', str ''StGB Art. 10'', str ''ZGB Art. 2''])
       = Inr (map PyStr [str ''art. 5'', str ''StGB Art. 10'', str ''ZGB Art. 2''], 0)"
proof -
  have a: "all_laws latin1 (map PyStr [str ''art. 5'', str ''StGB Art. 10'', str ''ZGB Art. 2''])
             = Inr [str ''STGB'', str ''ZGB'']"
    by (simp add: law_defs engine_defs latin1_defs)
  have b: "card (set [str ''STGB'', str ''ZGB'']) \<noteq> 1"
    by (simp add: str_def)
  show ?thesis
    using a b enrich_needs_exactly_one_law [OF a b] by blast
qed

text \<open>
  C4. On a list of strings the enricher returns a list of strings in which every
  citation is either the input citation at that place, or that citation followed by one
  space and the law reference that is the only element of the set of collected
  references. Nothing else is rewritten.
\<close>

theorem enrich_appends_law_or_keeps:
  "\<exists>out n laws. enrich_article_only_citations U (map PyStr cs) = Inr (map PyStr out, n)
     \<and> all_laws U (map PyStr cs) = Inr laws
     \<and> list_all2 (\<lambda>c c'. c' = c \<or> (\<exists>law. set laws = {law} \<and> c' = c @ str '' '' @ law)) cs out"
proof (cases "\<exists>law. remdups (List.map_filter (law_of U enrich_law_abbrevs) cs) = [law]")
  case True
  then obtain law where l: "remdups (List.map_filter (law_of U enrich_law_abbrevs) cs) = [law]" ..
  then have s: "set (List.map_filter (law_of U enrich_law_abbrevs) cs) = {law}"
    by (rule remdups_single)
  show ?thesis
    apply (simp add: enrich_strs all_laws_strs l)
    apply (rule exI [of _ "map (\<lambda>s. if is_article_only U s then s @ str '' '' @ law else s) cs"])
    apply (simp add: list_all2_map2 list_all2_same s)
    done
next
  case False
  then have "enrich_article_only_citations U (map PyStr cs) = Inr (map PyStr cs, 0)"
    by (auto simp: enrich_strs split: list.splits)
  then show ?thesis
    by (auto simp: all_laws_strs list_all2_same intro!: exI [of _ cs])
qed

lemma enrich_example:
  "enrich_article_only_citations latin1
     (map PyStr [str ''art. 128'', str ''Loi cantonale, RS 131.211''])
   = Inr (map PyStr [str ''art. 128 RS 131.211'', str ''Loi cantonale, RS 131.211''], 1)"
proof -
  have l: "List.map_filter (law_of latin1 enrich_law_abbrevs)
          [str ''art. 128'', str ''Loi cantonale, RS 131.211''] = [str ''RS 131.211'']"
    by (simp add: law_defs engine_defs latin1_defs)
  have a: "is_article_only latin1 (str ''art. 128'')"
    by (simp add: enrich_defs engine_defs latin1_defs)
  have b: "\<not> is_article_only latin1 (str ''Loi cantonale, RS 131.211'')"
    by (simp add: is_article_only_def strip_def startswith_def str_def latin1_defs in_range_def)
  have c: "str ''art. 128'' @ str '' '' @ str ''RS 131.211'' = str ''art. 128 RS 131.211''"
    by (simp add: str_def)
  show ?thesis
    unfolding enrich_strs l by (simp add: a b c)
qed

theorem enrich_appends_law_or_keeps_witness:
  "enrich_article_only_citations latin1
     (map PyStr [str ''art. 128'', str ''Loi cantonale, RS 131.211''])
   = Inr (map PyStr [str ''art. 128'' @ str '' '' @ str ''RS 131.211'',
                     str ''Loi cantonale, RS 131.211''], 1)
   \<and> (\<exists>out n laws.
         enrich_article_only_citations latin1
           (map PyStr [str ''art. 128'', str ''Loi cantonale, RS 131.211'']) = Inr (map PyStr out, n)
         \<and> all_laws latin1 (map PyStr [str ''art. 128'', str ''Loi cantonale, RS 131.211'']) = Inr laws
         \<and> list_all2 (\<lambda>c c'. c' = c \<or> (\<exists>law. set laws = {law} \<and> c' = c @ str '' '' @ law))
              [str ''art. 128'', str ''Loi cantonale, RS 131.211''] out)"
  using enrich_example
    enrich_appends_law_or_keeps [of latin1 "[str ''art. 128'', str ''Loi cantonale, RS 131.211'']"]
  by (simp add: str_def)

lemma count_positions:
  "length (filter (\<lambda>i. P (xs ! i)) [0..<length xs]) = length (filter P xs)"
proof -
  have "filter P (map ((!) xs) [0..<length xs])
          = map ((!) xs) (filter (P \<circ> (!) xs) [0..<length xs])"
    by (rule filter_map)
  then have "filter P xs = map ((!) xs) (filter (\<lambda>i. P (xs ! i)) [0..<length xs])"
    by (simp only: map_nth o_def)
  then have "length (filter P xs) = length (map ((!) xs) (filter (\<lambda>i. P (xs ! i)) [0..<length xs]))"
    by (rule arg_cong)
  then show ?thesis by simp
qed

text \<open>
  C9. On a list of strings the enricher returns a list of the same length, whose
  element at each place starts with the input element at that place, and the returned
  count is the number of places at which the output differs from the input.
\<close>

theorem enrich_keeps_positions_and_counts:
  "\<exists>out n. enrich_article_only_citations U (map PyStr cs) = Inr (map PyStr out, n)
     \<and> length out = length cs \<and> list_all2 prefix cs out
     \<and> n = length (filter (\<lambda>i. out ! i \<noteq> cs ! i) [0..<length cs])"
proof (cases "\<exists>law. remdups (List.map_filter (law_of U enrich_law_abbrevs) cs) = [law]")
  case True
  then obtain law where l: "remdups (List.map_filter (law_of U enrich_law_abbrevs) cs) = [law]" ..
  let ?f = "\<lambda>s. if is_article_only U s then s @ str '' '' @ law else s"
  have "filter (\<lambda>i. map ?f cs ! i \<noteq> cs ! i) [0..<length cs]
          = filter (\<lambda>i. is_article_only U (cs ! i)) [0..<length cs]"
    by (rule filter_cong) (simp_all add: str_def)
  then have c: "length (filter (is_article_only U) cs)
                     = length (filter (\<lambda>i. map ?f cs ! i \<noteq> cs ! i) [0..<length cs])"
    by (simp only: count_positions)
  have p: "list_all2 prefix cs (map ?f cs)"
    by (simp add: list_all2_map2 list_all2_same)
  have "enrich_article_only_citations U (map PyStr cs)
          = Inr (map PyStr (map ?f cs), length (filter (is_article_only U) cs))"
    by (simp add: enrich_strs l)
  with c p show ?thesis
    by (intro exI [of _ "map ?f cs"] exI [of _ "length (filter (is_article_only U) cs)"]) simp
next
  case False
  then have "enrich_article_only_citations U (map PyStr cs) = Inr (map PyStr cs, 0)"
    by (auto simp: enrich_strs split: list.splits)
  then show ?thesis
    by (intro exI [of _ cs] exI [of _ 0]) (simp add: list_all2_same)
qed

theorem enrich_keeps_positions_and_counts_witness:
  "enrich_article_only_citations latin1
     (map PyStr [str ''art. 128'', str ''Loi cantonale, RS 131.211''])
   = Inr (map PyStr [str ''art. 128 RS 131.211'', str ''Loi cantonale, RS 131.211''], 1)
   \<and> (\<exists>out n.
         enrich_article_only_citations latin1
           (map PyStr [str ''art. 128'', str ''Loi cantonale, RS 131.211'']) = Inr (map PyStr out, n)
         \<and> length out = length [str ''art. 128'', str ''Loi cantonale, RS 131.211'']
         \<and> list_all2 prefix [str ''art. 128'', str ''Loi cantonale, RS 131.211''] out
         \<and> n = length (filter (\<lambda>i. out ! i \<noteq> [str ''art. 128'', str ''Loi cantonale, RS 131.211''] ! i)
                          [0..<length [str ''art. 128'', str ''Loi cantonale, RS 131.211'']]))"
  using enrich_example
    enrich_keeps_positions_and_counts [of latin1 "[str ''art. 128'', str ''Loi cantonale, RS 131.211'']"]
  by blast

section \<open>The two collections of law references\<close>

lemma enrich_law_abbrevs_split:
  "enrich_law_abbrevs = swiss_law_abbrevs @ map str [''bgg'', ''svg'', ''emrk'', ''cedh'']"
  by (simp add: enrich_law_abbrevs_def swiss_law_abbrevs_def)

lemma extract_single:
  "extract_law_from_citations U [PyStr c] = Inr (law_of U swiss_law_abbrevs c)"
  by (simp split: option.splits)

lemma find_append_cases:
  "find P (xs @ ys) = (case find P xs of None \<Rightarrow> find P ys | Some x \<Rightarrow> Some x)"
  by (induction xs) simp_all

lemma law_of_longer_list:
  "law_of U xs c = Some law \<Longrightarrow> law_of U (xs @ ys) c = Some law"
  by (auto simp: law_of_def known_abbrev_def find_append_cases Let_def split: option.splits)

lemma law_of_shorter_list:
  assumes "law_of U (xs @ ys) c = Some law"
  shows "law_of U xs c = Some law \<or> law \<in> ascii_upper ` set ys"
proof (cases "law_of U xs c")
  case None
  with assms obtain a
    where "find (\<lambda>abbrev. re_search (word_pattern U abbrev) (py_lower U c) \<noteq> None) ys = Some a"
      and "law = ascii_upper a"
    by (auto simp: law_of_def known_abbrev_def find_append_cases Let_def split: option.splits)
  then show ?thesis
    by (auto simp: find_Some_iff)
next
  case (Some l)
  then show ?thesis
    using assms law_of_longer_list by fastforce
qed

lemma set_map_filter:
  "set (List.map_filter f xs) = {y. \<exists>x\<in>set xs. f x = Some y}"
  by (induction xs) (auto split: option.splits)

text \<open>
  C5, as the code has it. The enricher's first loop looks for the abbreviations
  \<open>bgg\<close>, \<open>svg\<close>, \<open>emrk\<close> and \<open>cedh\<close> as well, which \<open>extract_law_from_citations\<close> does
  not know. On a list of strings, every reference that \<open>extract_law_from_citations\<close>
  finds in a citation taken alone is among the references the enricher collects, and
  every reference the enricher collects is such a result or one of BGG, SVG, EMRK, CEDH.
\<close>

theorem all_laws_covers_extractor:
  "\<exists>laws. all_laws U (map PyStr cs) = Inr laws
     \<and> (\<forall>c\<in>set cs. \<forall>law. extract_law_from_citations U [PyStr c] = Inr (Some law) \<longrightarrow> law \<in> set laws)
     \<and> (\<forall>law\<in>set laws. (\<exists>c\<in>set cs. extract_law_from_citations U [PyStr c] = Inr (Some law))
                         \<or> law \<in> set (map str [''BGG'', ''SVG'', ''EMRK'', ''CEDH'']))"
proof -
  have up: "ascii_upper ` set (map str [''bgg'', ''svg'', ''emrk'', ''cedh''])
              = set (map str [''BGG'', ''SVG'', ''EMRK'', ''CEDH''])"
    by (simp add: ascii_upper_def str_def in_range_def)
  let ?laws = "List.map_filter (law_of U enrich_law_abbrevs) cs"
  have 1: "\<forall>c\<in>set cs. \<forall>law. extract_law_from_citations U [PyStr c] = Inr (Some law)
             \<longrightarrow> law \<in> set ?laws"
    unfolding extract_single
    by (auto simp: set_map_filter enrich_law_abbrevs_split intro: law_of_longer_list)
  have 2: "\<forall>law\<in>set ?laws. (\<exists>c\<in>set cs. extract_law_from_citations U [PyStr c] = Inr (Some law))
                         \<or> law \<in> set (map str [''BGG'', ''SVG'', ''EMRK'', ''CEDH''])"
  proof
    fix law assume "law \<in> set ?laws"
    then obtain c where c: "c \<in> set cs"
      "law_of U (swiss_law_abbrevs @ map str [''bgg'', ''svg'', ''emrk'', ''cedh'']) c = Some law"
      by (auto simp: set_map_filter enrich_law_abbrevs_split)
    from law_of_shorter_list [OF c(2)] c(1) up
    show "(\<exists>c\<in>set cs. extract_law_from_citations U [PyStr c] = Inr (Some law))
                         \<or> law \<in> set (map str [''BGG'', ''SVG'', ''EMRK'', ''CEDH''])"
      unfolding extract_single by blast
  qed
  from 1 2 show ?thesis
    unfolding all_laws_strs by blast
qed

theorem all_laws_covers_extractor_witness:
  "extract_law_from_citations latin1 [PyStr (str ''ZGB Art. 2'')] = Inr (Some (str ''ZGB''))
   \<and> (\<exists>laws. all_laws latin1 (map PyStr [str ''Art. 10 BGG'', str ''ZGB Art. 2'']) = Inr laws
         \<and> str ''ZGB'' \<in> set laws)"
proof -
  have e: "extract_law_from_citations latin1 [PyStr (str ''ZGB Art. 2'')] = Inr (Some (str ''ZGB''))"
    by (simp add: law_defs engine_defs latin1_defs)
  from all_laws_covers_extractor [of latin1 "[str ''Art. 10 BGG'', str ''ZGB Art. 2'']"]
  obtain laws where l: "all_laws latin1 (map PyStr [str ''Art. 10 BGG'', str ''ZGB Art. 2'']) = Inr laws"
    and a: "\<forall>c\<in>set [str ''Art. 10 BGG'', str ''ZGB Art. 2''].
              \<forall>law. extract_law_from_citations latin1 [PyStr c] = Inr (Some law) \<longrightarrow> law \<in> set laws"
    by blast
  from a have "extract_law_from_citations latin1 [PyStr (str ''ZGB Art. 2'')] = Inr (Some (str ''ZGB''))
                 \<longrightarrow> str ''ZGB'' \<in> set laws"
    by (simp del: extract_law_from_citations.simps)
  with e l show ?thesis by blast
qed

text \<open>
  The citation \<open>Art. 10 BGG\<close> alone: the enricher collects BGG, and
  \<open>extract_law_from_citations\<close> finds nothing.
\<close>

theorem all_laws_differs_from_extractor:
  "all_laws latin1 [PyStr (str ''Art. 10 BGG'')] = Inr [str ''BGG'']
   \<and> extract_law_from_citations latin1 [PyStr (str ''Art. 10 BGG'')] = Inr None"
  by (simp add: law_defs engine_defs latin1_defs)

section \<open>Values that are not strings\<close>

lemma extract_strs_returns: "\<exists>r. extract_law_from_citations U (map PyStr cs) = Inr r"
  by (induction cs) (simp_all split: option.splits)

lemma enrich_strs_returns: "\<exists>r. enrich_article_only_citations U (map PyStr cs) = Inr r"
  by (simp add: enrich_strs split: list.splits)

text \<open>
  C6, as the code has it. \<open>normalize_citation\<close> and \<open>is_garbage_citation\<close> return for
  every value, a string or not; \<open>categorize_citation\<close> returns for every string, and
  \<open>extract_law_from_citations\<close> and \<open>enrich_article_only_citations\<close> return for every
  list of strings.
\<close>

theorem functions_return_on_their_inputs:
  "(\<exists>r. normalize_citation U v = Inr r)
   \<and> (\<exists>r. is_garbage_citation U v = Inr r)
   \<and> (\<exists>l. categorize_citation U (PyStr s) = Inr l)
   \<and> (\<exists>r. extract_law_from_citations U (map PyStr cs) = Inr r)
   \<and> (\<exists>r. enrich_article_only_citations U (map PyStr cs) = Inr r)"
proof -
  have "\<exists>r. normalize_citation U v = Inr r"
    by (cases "\<not> truthy v \<or> \<not> isinstance_str v") (auto simp: normalize_citation_def Let_def)
  moreover have "\<exists>r. is_garbage_citation U v = Inr r"
    by (cases "\<not> truthy v \<or> \<not> isinstance_str v") (auto simp: is_garbage_citation_def)
  moreover have "\<exists>l. categorize_citation U (PyStr s) = Inr l"
    by (simp add: categorize_citation_def)
  ultimately show ?thesis
    using extract_strs_returns [of U cs] enrich_strs_returns [of U cs] by blast
qed

theorem functions_return_on_their_inputs_witness:
  "(\<exists>r. normalize_citation latin1 (PyInt 5) = Inr r)
   \<and> (\<exists>r. is_garbage_citation latin1 (PyInt 5) = Inr r)
   \<and> (\<exists>l. categorize_citation latin1 (PyStr (str ''abs. 3'')) = Inr l)
   \<and> (\<exists>r. extract_law_from_citations latin1 (map PyStr [str ''art. 5'', str ''ZGB Art. 2'']) = Inr r)
   \<and> (\<exists>r. enrich_article_only_citations latin1 (map PyStr [str ''art. 5'', str ''ZGB Art. 2'']) = Inr r)"
  by (rule functions_return_on_their_inputs)

text \<open>
  The three functions without a guard raise on \<open>None\<close>, alone or as a citation of the list.
\<close>

theorem non_string_raises:
  "categorize_citation latin1 PyNone = Inl AttributeError
   \<and> extract_law_from_citations latin1 [PyNone] = Inl AttributeError
   \<and> enrich_article_only_citations latin1 [PyNone] = Inl AttributeError"
  by (simp add: categorize_citation_def enrich_article_only_citations_def)

section \<open>The citation loop on a list of strings\<close>

lemma pass_through:
  "v = PyStr [] \<or> \<not> isinstance_str v \<Longrightarrow>
     normalize_citation U v = Inr (v, False, False) \<and> is_garbage_citation U v = Inr (False, None)"
  by (cases v) (auto simp: normalize_citation_def is_garbage_citation_def)

lemma process_citation_str:
  "\<exists>st' kept. process_citation U (st, map PyStr acc) (PyStr c) = Inr (st', map PyStr (acc @ kept))
      \<and> citations_kept st' = citations_kept st + length kept \<and> (c = [] \<longrightarrow> kept = [[]])"
proof (cases "c = []")
  case True
  then show ?thesis
    by (auto simp: process_citation_def normalize_citation_def is_garbage_citation_def Let_def
             intro!: exI [of _ "[[]]"])
next
  case False
  obtain ch d where n: "normalize_citation U (PyStr c) = Inr (PyStr (normalize_text U c), ch, d)"
    using False by (simp add: normalize_citation_def Let_def the_str_def)
  obtain b r where g: "is_garbage_citation U (PyStr (normalize_text U c)) = Inr (b, r)"
    by (cases "normalize_text U c = []") (auto simp: is_garbage_citation_def intro: prod.exhaust)
  show ?thesis
  proof (cases "d \<or> b")
    case True
    then show ?thesis
      using False by (auto simp: process_citation_def n g Let_def intro!: exI [of _ "[]"])
  next
    case nb: False
    then show ?thesis
      using False by (auto simp: process_citation_def n g Let_def intro!: exI [of _ "[normalize_text U c]"])
  qed
qed

lemma citations_loop_strs:
  "\<exists>st' kept. citations_loop U (st, map PyStr acc) (map PyStr cs) = Inr (st', map PyStr (acc @ kept))
      \<and> citations_kept st' = citations_kept st + length kept \<and> ([] \<in> set cs \<longrightarrow> [] \<in> set kept)"
proof (induction cs arbitrary: st acc)
  case Nil
  show ?case by (auto intro!: exI [of _ "[]"])
next
  case (Cons c cs)
  obtain st1 k1 where 1: "process_citation U (st, map PyStr acc) (PyStr c) = Inr (st1, map PyStr (acc @ k1))"
    "citations_kept st1 = citations_kept st + length k1" "c = [] \<longrightarrow> k1 = [[]]"
    using process_citation_str [of U st acc c] by blast
  obtain st2 k2 where 2: "citations_loop U (st1, map PyStr (acc @ k1)) (map PyStr cs) = Inr (st2, map PyStr ((acc @ k1) @ k2))"
    "citations_kept st2 = citations_kept st1 + length k2" "[] \<in> set cs \<longrightarrow> [] \<in> set k2"
    using Cons.IH [of st1 "acc @ k1"] by blast
  show ?case
    apply (rule exI [of _ st2], rule exI [of _ "k1 @ k2"])
    using 1 2 by (auto simp del: map_append)
qed

lemma empty_not_article_only: "py_lower U [] = [] \<Longrightarrow> \<not> is_article_only U []"
  by (simp add: is_article_only_def strip_def startswith_def str_def)

text \<open>
  Rows of strings. For the empty string and for every value that is not a string,
  \<open>normalize_citation\<close> returns the value itself with \<open>changed\<close> and \<open>is_digit_only\<close>
  false, and \<open>is_garbage_citation\<close> returns \<open>(False, None)\<close>. On a list of strings,
  the loop of \<open>process_csv\<close> returns, every citation it writes to the output list is
  counted as kept, and an empty string in the input is among them. (That lower-casing
  the empty string gives the empty string is the one fact used about the interpreter's
  tables.)
\<close>

theorem empty_citation_is_kept:
  assumes "py_lower U [] = []"
  shows "(v = PyStr [] \<or> \<not> isinstance_str v \<longrightarrow>
            normalize_citation U v = Inr (v, False, False)
            \<and> is_garbage_citation U v = Inr (False, None))
         \<and> (\<exists>out st'. process_articles U st (map PyStr cs) = Inr (map PyStr out, st')
               \<and> citations_kept st' = citations_kept st + length out
               \<and> ([] \<in> set cs \<longrightarrow> [] \<in> set out))"
proof -
  obtain st1 kept where l: "citations_loop U (st, []) (map PyStr cs) = Inr (st1, map PyStr kept)"
    and k: "citations_kept st1 = citations_kept st + length kept" and m: "[] \<in> set cs \<longrightarrow> [] \<in> set kept"
    using citations_loop_strs [of U st "[]" cs] by auto
  have "\<exists>out n. enrich_article_only_citations U (map PyStr kept) = Inr (map PyStr out, n)
          \<and> list_all2 (\<lambda>c c'. c' = c \<or> is_article_only U c) kept out"
  proof (cases "\<exists>law. remdups (List.map_filter (law_of U enrich_law_abbrevs) kept) = [law]")
    case True
    then obtain law where "remdups (List.map_filter (law_of U enrich_law_abbrevs) kept) = [law]" ..
    then show ?thesis
      by (auto simp: enrich_strs list_all2_map2 list_all2_same
               intro!: exI [of _ "map (\<lambda>s. if is_article_only U s then s @ str '' '' @ law else s) kept"])
  next
    case False
    then have "enrich_article_only_citations U (map PyStr kept) = Inr (map PyStr kept, 0)"
      by (auto simp: enrich_strs split: list.splits)
    then show ?thesis
      by (auto simp: list_all2_same intro!: exI [of _ kept])
  qed
  then obtain out n where e: "enrich_article_only_citations U (map PyStr kept) = Inr (map PyStr out, n)"
    and o: "list_all2 (\<lambda>c c'. c' = c \<or> is_article_only U c) kept out"
    by blast
  have len: "length out = length kept"
    using o by (simp add: list_all2_lengthD)
  have mem: "[] \<in> set kept \<longrightarrow> [] \<in> set out"
  proof
    assume "[] \<in> set kept"
    then obtain i where "i < length kept" "kept ! i = []" by (auto simp: in_set_conv_nth)
    with o have "out ! i = []"
      using empty_not_article_only [OF assms] by (auto simp: list_all2_conv_all_nth)
    with \<open>i < length kept\<close> len show "[] \<in> set out" by (metis nth_mem)
  qed
  have "process_articles U st (map PyStr cs)
          = Inr (map PyStr out, st1\<lparr>citations_enriched := citations_enriched st1 + n\<rparr>)"
    by (simp add: process_articles_def l e)
  with k len m mem pass_through [of v U] show ?thesis
    by auto
qed

theorem empty_citation_is_kept_witness:
  "py_lower latin1 [] = []
   \<and> normalize_citation latin1 PyNone = Inr (PyNone, False, False)
   \<and> is_garbage_citation latin1 PyNone = Inr (False, None)
   \<and> (\<exists>out st'. process_articles latin1 stats0 (map PyStr [[], str ''207ff.'']) = Inr (map PyStr out, st')
         \<and> citations_kept st' = citations_kept stats0 + length out \<and> [] \<in> set out)"
proof -
  have h: "py_lower latin1 [] = []"
    by (simp add: latin1_def)
  from empty_citation_is_kept [OF h, of PyNone stats0 "[[], str ''207ff.'']"] h
  show ?thesis by simp
qed

text \<open>
  C10. Both guards let a value that is not a string through, as they let the empty
  string through, and \<open>process_csv\<close> appends it to the normalized list and counts it as
  kept; but the next statement, \<open>normalized.strip()\<close> at line 330, has no guard and
  raises on it. So in the row \<open>["", null]\<close> the empty string passes both filters
  and is counted as kept, and then the row raises \<open>AttributeError\<close>: nothing of it is
  written to the output table.
\<close>

theorem non_string_sibling_aborts_row:
  "normalize_citation latin1 PyNone = Inr (PyNone, False, False)
   \<and> is_garbage_citation latin1 PyNone = Inr (False, None)
   \<and> process_citation latin1 (stats0, []) (PyStr [])
       = Inr (stats0\<lparr>citations_processed := 1, citations_kept := 1,
                     failures := [(PyStr [], PyStr [])]\<rparr>, [PyStr []])
   \<and> process_articles latin1 stats0 [PyStr [], PyNone] = Inl AttributeError"
proof -
  have n: "normalize_citation latin1 PyNone = Inr (PyNone, False, False)"
    by (simp add: normalize_citation_def)
  have g: "is_garbage_citation latin1 PyNone = Inr (False, None)"
    by (simp add: is_garbage_citation_def)
  have n0: "normalize_citation latin1 (PyStr []) = Inr (PyStr [], False, False)"
    by (simp add: normalize_citation_def)
  have g0: "is_garbage_citation latin1 (PyStr []) = Inr (False, None)"
    by (simp add: is_garbage_citation_def)
  have f0: "is_short_fragment latin1 []"
    by (simp add: is_short_fragment_def known_abbrevs_def enrich_defs engine_defs latin1_defs)
  have p0: "process_citation latin1 (stats0, []) (PyStr [])
              = Inr (stats0\<lparr>citations_processed := 1, citations_kept := 1,
                            failures := [(PyStr [], PyStr [])]\<rparr>, [PyStr []])"
    by (simp add: process_citation_def n0 g0 f0 stats0_def)
  have p1: "process_citation latin1 (st, kept) PyNone = Inl AttributeError" for st kept
    by (simp add: process_citation_def n g)
  have "process_articles latin1 stats0 [PyStr [], PyNone] = Inl AttributeError"
    by (simp add: process_articles_def p0 p1)
  with n g p0 show ?thesis by simp
qed

theorem non_string_sibling_aborts_row_witness:
  "(\<exists>st kept. process_citation latin1 (stats0, []) (PyStr []) = Inr (st, kept)
        \<and> PyStr [] \<in> set kept \<and> citations_kept st = 1)
   \<and> (\<exists>e. process_articles latin1 stats0 [PyStr [], PyNone] = Inl e)"
  using non_string_sibling_aborts_row by simp

section \<open>The garbage filter and the classifier\<close>

text \<open>
  C3. The classifier \<open>categorize_citation\<close> labels a citation with a repealed token
  \<open>GARBAGE_REPEALED\<close>, but the filter that \<open>process_csv\<close> applies is
  \<open>is_garbage_citation\<close>, which has no test for the repealed tokens, although the
  comment at its call names them among what is skipped. The citation
  \<open>Art. 5 aufgehoben\<close> is classified \<open>GARBAGE_REPEALED\<close>, is not flagged by the filter,
  and is written to the output list of its row, counted as kept.
\<close>

theorem repealed_citation_is_written:
  "process_articles latin1 stats0 [PyStr (str ''Art. 5 aufgehoben'')]
     = Inr ([PyStr (str ''Art. 5 aufgehoben'')],
            stats0\<lparr>citations_processed := 1, citations_kept := 1\<rparr>)
   \<and> is_garbage_citation latin1 (PyStr (str ''Art. 5 aufgehoben'')) = Inr (False, None)
   \<and> categorize_citation latin1 (PyStr (str ''Art. 5 aufgehoben'')) = Inr GARBAGE_REPEALED"
proof -
  have n: "normalize_citation latin1 (PyStr (str ''Art. 5 aufgehoben''))
             = Inr (PyStr (str ''Art. 5 aufgehoben''), False, False)"
    by (simp add: normalize_defs engine_defs latin1_defs)
  have g: "is_garbage_citation latin1 (PyStr (str ''Art. 5 aufgehoben'')) = Inr (False, None)"
    by (simp add: garbage_defs engine_defs latin1_defs)
  have f: "\<not> is_short_fragment latin1 (str ''Art. 5 aufgehoben'')"
    by (simp add: is_short_fragment_def strip_def str_def latin1_defs in_range_def)
  have l: "citations_loop latin1 (stats0, []) [PyStr (str ''Art. 5 aufgehoben'')]
             = Inr (stats0\<lparr>citations_processed := 1, citations_kept := 1\<rparr>,
                    [PyStr (str ''Art. 5 aufgehoben'')])"
    by (simp add: process_citation_def n g f stats0_def)
  have e: "enrich_article_only_citations latin1 [PyStr (str ''Art. 5 aufgehoben'')]
             = Inr ([PyStr (str ''Art. 5 aufgehoben'')], 0)"
    by (simp add: enrich_defs law_defs engine_defs latin1_defs)
  have c: "categorize_citation latin1 (PyStr (str ''Art. 5 aufgehoben'')) = Inr GARBAGE_REPEALED"
    by (simp add: categorize_defs engine_defs latin1_defs)
  have "process_articles latin1 stats0 [PyStr (str ''Art. 5 aufgehoben'')]
     = Inr ([PyStr (str ''Art. 5 aufgehoben'')],
            stats0\<lparr>citations_processed := 1, citations_kept := 1\<rparr>)"
    unfolding process_articles_def l by (simp add: e stats0_def)
  with g c show ?thesis by simp
qed

theorem repealed_citation_is_written_witness:
  "(\<exists>l. categorize_citation latin1 (PyStr (str ''Art. 5 aufgehoben'')) = Inr l \<and> garbage_label l)
   \<and> (\<exists>out st. process_articles latin1 stats0 [PyStr (str ''Art. 5 aufgehoben'')] = Inr (out, st)
         \<and> PyStr (str ''Art. 5 aufgehoben'') \<in> set out \<and> citations_kept st = 1)"
  using repealed_citation_is_written by simp

lemma fragment_pattern_matches:
  assumes "m \<in> set fragment_markers" and "py_isspace U w"
  shows "re_match (fragment_pattern U) (m @ w # rest) \<noteq> None"
  using assms
  by (auto simp: fragment_markers_def fragment_pattern_def engine_defs)

lemma fragment_prefix_found:
  assumes "m \<in> set fragment_markers"
  shows "list_ex (startswith (m @ 0x20 # rest)) fragment_prefixes"
  using assms
  by (auto simp: fragment_markers_def fragment_prefixes_def startswith_def str_def)

text \<open>
  C7, as the code has it. The markers are the seven spellings \<open>Abs.\<close>, \<open>Al.\<close>, \<open>al.\<close>,
  \<open>lit.\<close>, \<open>let.\<close>, \<open>Lit.\<close>, \<open>Let.\<close>, and a character must follow. A citation that
  begins with one of them followed by a whitespace character is flagged by the garbage
  filter with reason \<open>fragment_marker\<close>, whatever comes after. When the marker is
  followed by a space, the classifier assigns \<open>GARBAGE_FRAGMENT\<close>, unless the lower-cased
  text contains a repealed token, which makes it \<open>GARBAGE_REPEALED\<close>.
\<close>

theorem fragment_marker_flagged:
  assumes "m \<in> set fragment_markers"
  shows "(py_isspace U w \<longrightarrow>
            is_garbage_citation U (PyStr (m @ w # rest)) = Inr (True, Some (str ''fragment_marker'')))
         \<and> categorize_citation U (PyStr (m @ 0x20 # rest))
             = Inr (if list_ex (\<lambda>token. contains token (py_lower U (m @ 0x20 # rest))) repealed_tokens
                    then GARBAGE_REPEALED else GARBAGE_FRAGMENT)"
  using fragment_pattern_matches [OF assms, of U w rest] fragment_prefix_found [OF assms, of rest]
  by (simp add: is_garbage_citation_def is_garbage_text_def the_str_def
        categorize_citation_def categorize_text_def Let_def)

theorem fragment_marker_flagged_witness:
  "str ''Abs.'' \<in> set fragment_markers \<and> py_isspace latin1 0x20
   \<and> is_garbage_citation latin1 (PyStr (str ''Abs. 3'')) = Inr (True, Some (str ''fragment_marker''))
   \<and> categorize_citation latin1 (PyStr (str ''Abs. 3'')) = Inr GARBAGE_FRAGMENT"
proof -
  have m: "str ''Abs.'' \<in> set fragment_markers"
    by (simp add: fragment_markers_def)
  have w: "py_isspace latin1 0x20"
    by (simp add: latin1_def in_range_def)
  have s: "str ''Abs.'' @ 0x20 # str ''3'' = str ''Abs. 3''"
    by (simp add: str_def)
  have r: "\<not> list_ex (\<lambda>token. contains token (py_lower latin1 (str ''Abs. 3''))) repealed_tokens"
    by (simp add: repealed_tokens_def latin1_defs in_range_def str_def)
  from fragment_marker_flagged [OF m, of latin1 "0x20" "str ''3''"] m w r
  show ?thesis
    unfolding s by simp
qed

text \<open>
  The citation \<open>abs. 3\<close> begins with a marker in small letters and holds no article
  marker: neither the filter nor the classifier takes it for a fragment.
\<close>

theorem lower_case_marker_not_flagged:
  "re_search (article_pattern latin1) (str ''abs. 3'') = None
   \<and> is_garbage_citation latin1 (PyStr (str ''abs. 3'')) = Inr (False, None)
   \<and> categorize_citation latin1 (PyStr (str ''abs. 3'')) = Inr UNKNOWN"
proof -
  have "re_search (article_pattern latin1) (str ''abs. 3'') = None"
    by (simp add: article_pattern_def engine_defs latin1_defs)
  moreover have "is_garbage_citation latin1 (PyStr (str ''abs. 3'')) = Inr (False, None)"
    by (simp add: garbage_defs engine_defs latin1_defs)
  moreover have "categorize_citation latin1 (PyStr (str ''abs. 3'')) = Inr UNKNOWN"
    by (simp add: categorize_defs engine_defs latin1_defs)
  ultimately show ?thesis by simp
qed






text \<open>
  The accented month names (written here without their accents): \<open>month_patterns\<close>
  holds the accented letter of \<open>marz\<close>, \<open>fevrier\<close>, \<open>aout\<close> and \<open>decembre\<close> as two
  code points, which no lower-cased text contains, so the filter does not take a
  correctly written one for a month: the citation \<open>14 fevrier 1990\<close>, with U+00E9 for
  its accented letter, is not flagged.
\<close>

lemma accented_month_not_recognised:
  "is_garbage_citation latin1 (PyStr (str ''14 f'' @ [0xE9] @ str ''vrier 1990'')) = Inr (False, None)"
  by (simp add: garbage_defs engine_defs latin1_defs)

section \<open>Normalizing twice\<close>

text \<open>What the matchers of the footnote pattern return, and what a scan finds.\<close>

lemma seq_results: "st \<in> set (seq m1 m2 s) \<longleftrightarrow> (\<exists>s1 \<in> set (m1 s). st \<in> set (m2 s1))"
  by (auto simp: seq_def)

lemma cls_results:
  "st \<in> set (cls P (p, r, g)) \<longleftrightarrow> (\<exists>x xs. r = x # xs \<and> P x \<and> st = (Some x, xs, g))"
  by (cases r) auto

lemma star_unfold:
  "star m (p, r, g) =
     concat (map (\<lambda>(p', r', g'). if length r' < length r then star m (p', r', g') else [])
                 (m (p, r, g)))
     @ [(p, r, g)]"
  by (rule star.simps)

lemma star_cls_Nil: "star (cls P) (p, [], g) = [(p, [], g)]"
  by (subst star_unfold) simp

lemma star_cls_Cons:
  "star (cls P) (p, x # xs, g)
     = (if P x then star (cls P) (Some x, xs, g) else []) @ [(p, x # xs, g)]"
  by (subst star_unfold) (simp del: star.simps)

lemma star_cls_results:
  "st \<in> set (star (cls P) (p, r, g)) \<Longrightarrow>
     \<exists>ds r'. st = (if ds = [] then p else Some (last ds), r', g) \<and> r = ds @ r' \<and> list_all P ds"
proof (induction r arbitrary: p st)
  case Nil
  then show ?case by (simp add: star_cls_Nil del: star.simps)
next
  case (Cons x xs)
  show ?case
  proof (cases "st = (p, x # xs, g)")
    case True
    then show ?thesis by (intro exI [of _ "[]"] exI [of _ "x # xs"]) simp
  next
    case False
    with Cons.prems have px: "P x" and "st \<in> set (star (cls P) (Some x, xs, g))"
      by (auto simp: star_cls_Cons simp del: star.simps split: if_splits)
    from Cons.IH [OF this(2)] obtain ds r'
      where "st = (if ds = [] then Some x else Some (last ds), r', g)" "xs = ds @ r'" "list_all P ds"
      by blast
    with px show ?thesis
      by (intro exI [of _ "x # ds"] exI [of _ r']) simp
  qed
qed

lemma rep1_cls_results:
  assumes "st \<in> set (rep1 (cls P) (p, r, g))"
  shows "\<exists>ds r'. ds \<noteq> [] \<and> st = (Some (last ds), r', g) \<and> r = ds @ r' \<and> list_all P ds"
proof -
  from assms obtain x xs where r: "r = x # xs" "P x" and "st \<in> set (star (cls P) (Some x, xs, g))"
    by (auto simp: rep1_def seq_results cls_results simp del: star.simps)
  from star_cls_results [OF this(3)] obtain ds r'
    where "st = (if ds = [] then Some x else Some (last ds), r', g)" "xs = ds @ r'" "list_all P ds"
    by blast
  with r show ?thesis
    by (intro exI [of _ "x # ds"] exI [of _ r']) simp
qed


lemma grp_cls_results:
  "st \<in> set (grp n (cls P) (p, r, g)) \<longleftrightarrow> (\<exists>x xs. r = x # xs \<and> P x \<and> st = (Some x, xs, (n, [x]) # g))"
  by (cases r) auto

lemma eol_results: "st \<in> set (eol (p, r, g)) \<longleftrightarrow> ((r = [] \<or> r = [0x0A]) \<and> st = (p, r, g))"
  by auto

lemma eps_results: "st \<in> set (eps s) \<longleftrightarrow> st = s"
  by (simp add: eps_def)

lemma pattern4_results:
  assumes "st \<in> set (pattern4 U (p, r, g))"
  shows "\<exists>a ds e. r = a # ds @ e \<and> footnote_letter a \<and> ds \<noteq> [] \<and> list_all (py_isdecimal U) ds
           \<and> (e = [] \<or> e = [0x0A]) \<and> st = (Some (last ds), e, (1, [a]) # g)"
proof -
  from assms obtain a xs st1 where r: "r = a # xs" "footnote_letter a"
    and 1: "st1 \<in> set (rep1 (cls (py_isdecimal U)) (Some a, xs, (1, [a]) # g))"
    and 2: "st \<in> set (seq eol eps st1)"
    unfolding pattern4_def seqs_def digit_def foldr.simps o_def
    by (auto simp: seq_results [of _ "grp 1 (cls footnote_letter)"]
                   seq_results [of _ "rep1 (cls (py_isdecimal U))"] grp_cls_results
             simp del: grp.simps One_nat_def)
  from rep1_cls_results [OF 1] obtain ds e
    where d: "ds \<noteq> []" "st1 = (Some (last ds), e, (1, [a]) # g)" "xs = ds @ e" "list_all (py_isdecimal U) ds"
    by blast
  from 2 d(2) have "(e = [] \<or> e = [0x0A]) \<and> st = st1"
    by (auto simp: seq_results eps_results eol_results simp del: eol.simps)
  with r d show ?thesis by blast
qed

lemma re_scan_Some:
  "re_scan m p r = Some (pre, st) \<Longrightarrow> \<exists>p1 r1. r = pre @ r1 \<and> st \<in> set (m (p1, r1, []))"
proof (induction r arbitrary: p pre)
  case Nil
  then show ?case
    by (cases "m (p, [], [])") (auto intro!: exI [of _ p])
next
  case (Cons x xs)
  show ?case
  proof (cases "m (p, x # xs, [])")
    case Nil
    with Cons.prems obtain pre' where "re_scan m (Some x) xs = Some (pre', st)" "pre = x # pre'"
      by auto
    with Cons.IH [OF this(1)] show ?thesis by auto
  next
    case (Cons st' sts)
    with Cons.prems have "pre = []" "st = st'" by auto
    with Cons show ?thesis by (intro exI [of _ p] exI [of _ "x # xs"]) simp
  qed
qed

lemma re_scan_None:
  "(\<And>p1 r1. suffix r1 r \<Longrightarrow> m (p1, r1, []) = []) \<Longrightarrow> re_scan m p r = None"
proof (induction r arbitrary: p)
  case Nil
  then show ?case by (simp add: suffix_def)
next
  case (Cons x xs)
  have "m (p, x # xs, []) = []"
    by (rule Cons.prems) simp
  moreover have "re_scan m (Some x) xs = None"
    by (rule Cons.IH, rule Cons.prems) (simp add: suffix_Cons)
  ultimately show ?case by simp
qed

lemma re_sub_from_no_match: "re_scan m p r = None \<Longrightarrow> re_sub_from m repl p r = r"
  by (subst re_sub_from.simps) simp

lemma re_sub_no_match: "re_search m s = None \<Longrightarrow> re_sub m repl s = s"
  by (simp add: re_search_def re_sub_def re_sub_from_no_match del: re_sub_from.simps)


lemma newline_not_footnote_letter: "\<not> footnote_letter 0x0A"
  by (simp add: footnote_letter_def in_range_def)

lemma pattern4_none_after_letter:
  assumes d: "\<forall>c. footnote_letter c \<or> c = 0x0A \<longrightarrow> \<not> py_isdecimal U c"
    and a: "footnote_letter a" and e: "e = [] \<or> e = [0x0A]"
  shows "re_scan (pattern4 U) p (pre @ a # e) = None"
proof (rule re_scan_None)
  fix p1 r1
  assume "suffix r1 (pre @ a # e)"
  then obtain u where u: "pre @ a # e = u @ r1"
    by (auto simp: suffix_def)
  show "pattern4 U (p1, r1, []) = []"
  proof (rule ccontr)
    assume "pattern4 U (p1, r1, []) \<noteq> []"
    then obtain st where "st \<in> set (pattern4 U (p1, r1, []))"
      by (cases "pattern4 U (p1, r1, [])") auto
    from pattern4_results [OF this] obtain b ds e'
      where r1: "r1 = b # ds @ e'" and ds: "ds \<noteq> []" "list_all (py_isdecimal U) ds"
        and e': "e' = [] \<or> e' = [0x0A]"
      by blast
    from ds obtain ds0 k where k: "ds = ds0 @ [k]" "py_isdecimal U k"
      by (cases ds rule: rev_cases) auto
    from u r1 k(1) have "rev e @ a # rev pre = rev e' @ k # rev ds0 @ b # rev u"
      by (metis append.assoc append_Cons append_Nil rev.simps(2) rev_append)
    with e e' have "a = k \<or> a = 0x0A \<or> k = 0x0A"
      by auto
    with d a k(2) newline_not_footnote_letter show False
      by blast
  qed
qed

lemma pattern4_none_at_end:
  assumes "e = [] \<or> e = [0x0A]"
  shows "re_scan (pattern4 U) p e = None"
proof (rule re_scan_None)
  fix p1 r1
  assume s: "suffix r1 e"
  show "pattern4 U (p1, r1, []) = []"
  proof (rule ccontr)
    assume "pattern4 U (p1, r1, []) \<noteq> []"
    then obtain st where "st \<in> set (pattern4 U (p1, r1, []))"
      by (cases "pattern4 U (p1, r1, [])") auto
    from pattern4_results [OF this] obtain b ds e'
      where "r1 = b # ds @ e'" and "ds \<noteq> []"
      by blast
    then have "2 \<le> length r1"
      by (cases ds) auto
    moreover from s have "length r1 \<le> length e"
      by (rule suffix_length_le)
    ultimately show False
      using assms by auto
  qed
qed

lemma footnote_rule_result:
  "re_scan (pattern4 U) None z = None
   \<or> (\<exists>pre a e. footnote_letter a \<and> (e = [] \<or> e = [0x0A])
         \<and> re_sub (pattern4 U) template4 z = pre @ a # e)"
proof (cases "re_scan (pattern4 U) None z")
  case None
  then show ?thesis by simp
next
  case (Some res)
  obtain pre st where res: "res = (pre, st)" by (cases res)
  from re_scan_Some [OF Some [unfolded res]] obtain p1 r1
    where z: "z = pre @ r1" and "st \<in> set (pattern4 U (p1, r1, []))"
    by blast
  from pattern4_results [OF this(2)] obtain a ds e
    where r1: "r1 = a # ds @ e" and a: "footnote_letter a" and ds: "ds \<noteq> []"
      and e: "e = [] \<or> e = [0x0A]" and st: "st = (Some (last ds), e, [(1, [a])])"
    by blast
  have sc: "re_scan (pattern4 U) None z = Some (pre, Some (last ds), e, [(1, [a])])"
    using Some res st by simp
  have len: "length pre + length e < length z"
    using z r1 by simp
  have "re_sub (pattern4 U) template4 z = pre @ a # e"
    unfolding re_sub_def
    by (subst re_sub_from.simps)
       (simp add: sc len template4_def group_text_def
                  re_sub_from_no_match [OF pattern4_none_at_end [OF e]]
             del: re_sub_from.simps)
  with a e show ?thesis by blast
qed

lemma footnote_rule_idempotent:
  assumes "\<forall>c. footnote_letter c \<or> c = 0x0A \<longrightarrow> \<not> py_isdecimal U c"
  shows "re_sub (pattern4 U) template4 (re_sub (pattern4 U) template4 z)
           = re_sub (pattern4 U) template4 z"
proof -
  from footnote_rule_result [of U z] show ?thesis
  proof
    assume "re_scan (pattern4 U) None z = None"
    then show ?thesis
      by (simp add: re_sub_def re_sub_from_no_match del: re_sub_from.simps)
  next
    assume "\<exists>pre a e. footnote_letter a \<and> (e = [] \<or> e = [0x0A])
              \<and> re_sub (pattern4 U) template4 z = pre @ a # e"
    then obtain pre a e where "footnote_letter a" "e = [] \<or> e = [0x0A]"
      and w: "re_sub (pattern4 U) template4 z = pre @ a # e"
      by blast
    from pattern4_none_after_letter [OF assms this(1,2)]
    have "re_sub (pattern4 U) template4 (pre @ a # e) = pre @ a # e"
      by (simp add: re_sub_def re_sub_from_no_match del: re_sub_from.simps)
    with w show ?thesis by simp
  qed
qed

text \<open>
  C2, as the code has it. Each of the four rewrites is applied once, in order, so a
  second call can rewrite what the first call left: the footnote rule runs last, and
  the text it uncovers is seen by the three space-inserting rules only in the next
  call. The footnote rule itself never applies twice. So normalizing is idempotent on
  every string whose normalized form holds no match of the patterns 1, 2 and 3: then
  \<open>normalize_citation\<close> returns the normalized string unchanged. (That no letter of
  the footnote class and no newline is a decimal digit is the one fact used about the
  interpreter's tables.)
\<close>

theorem normalize_idempotent_when_settled:
  assumes "\<forall>c. footnote_letter c \<or> c = 0x0A \<longrightarrow> \<not> py_isdecimal U c"
    and "normalize_citation U (PyStr x) = Inr (PyStr y, changed, digit_only)"
    and "re_search (pattern1 U) y = None"
    and "re_search (pattern2 U) y = None"
    and "re_search (pattern3 U) y = None"
  shows "\<exists>digit_only'. normalize_citation U (PyStr y) = Inr (PyStr y, False, digit_only')"
proof (cases "y = []")
  case True
  then show ?thesis by (auto simp: normalize_citation_def)
next
  case False
  with assms(2) have y: "y = normalize_text U x"
    by (cases "x = []") (auto simp: normalize_citation_def Let_def the_str_def)
  have "normalize_text U y = re_sub (pattern4 U) template4 y"
    by (simp add: normalize_text_def re_sub_no_match assms(3-5))
  also have "\<dots> = y"
    unfolding y normalize_text_def Let_def by (rule footnote_rule_idempotent [OF assms(1)])
  finally show ?thesis
    using False by (simp add: normalize_citation_def Let_def the_str_def)
qed


theorem normalize_idempotent_when_settled_witness:
  "\<not> (\<exists>c. (footnote_letter c \<or> c = 0x0A) \<and> py_isdecimal latin1 c)
   \<and> normalize_citation latin1 (PyStr (str ''Loi administrative3''))
       = Inr (PyStr (str ''Loi administrative''), True, False)
   \<and> re_search (pattern1 latin1) (str ''Loi administrative'') = None
   \<and> re_search (pattern2 latin1) (str ''Loi administrative'') = None
   \<and> re_search (pattern3 latin1) (str ''Loi administrative'') = None
   \<and> (\<exists>digit_only'. normalize_citation latin1 (PyStr (str ''Loi administrative''))
         = Inr (PyStr (str ''Loi administrative''), False, digit_only'))"
proof -
  have d: "\<forall>c. footnote_letter c \<or> c = 0x0A \<longrightarrow> \<not> py_isdecimal latin1 c"
    by (auto simp: footnote_letter_def latin1_def in_range_def)
  have n: "normalize_citation latin1 (PyStr (str ''Loi administrative3''))
             = Inr (PyStr (str ''Loi administrative''), True, False)"
    by (simp add: normalize_defs engine_defs latin1_defs)
  have 1: "re_search (pattern1 latin1) (str ''Loi administrative'') = None"
    by (simp add: normalize_defs engine_defs latin1_defs)
  have 2: "re_search (pattern2 latin1) (str ''Loi administrative'') = None"
    by (simp add: normalize_defs engine_defs latin1_defs)
  have 3: "re_search (pattern3 latin1) (str ''Loi administrative'') = None"
    by (simp add: normalize_defs engine_defs latin1_defs)
  from d n 1 2 3 normalize_idempotent_when_settled [OF d n 1 2 3]
  show ?thesis by blast
qed

text \<open>
  \<open>Art.6Vw3\<close> is normalized to \<open>Art.6Vw\<close>: pattern 3 does not match before the
  footnote digit is gone. A second call turns \<open>Art.6Vw\<close> into \<open>Art. 6 Vw\<close>.
\<close>

theorem normalize_second_call_rewrites:
  "normalize_citation latin1 (PyStr (str ''Art.6Vw3'')) = Inr (PyStr (str ''Art.6Vw''), True, False)
   \<and> normalize_citation latin1 (PyStr (str ''Art.6Vw'')) = Inr (PyStr (str ''Art. 6 Vw''), True, False)
   \<and> str ''Art. 6 Vw'' \<noteq> str ''Art.6Vw''"
proof -
  have "normalize_citation latin1 (PyStr (str ''Art.6Vw3'')) = Inr (PyStr (str ''Art.6Vw''), True, False)"
    by (simp add: normalize_defs engine_defs latin1_defs)
  moreover have "normalize_citation latin1 (PyStr (str ''Art.6Vw''))
                   = Inr (PyStr (str ''Art. 6 Vw''), True, False)"
    by (simp add: normalize_defs engine_defs latin1_defs)
  moreover have "str ''Art. 6 Vw'' \<noteq> str ''Art.6Vw''"
    by (simp add: str_def)
  ultimately show ?thesis by simp
qed

end
